theory Spec2Isabelle
  imports Main "HOL-Library.AList"
begin

section \<open>JavaScript values, objects and arrays\<close>

text \<open>
  The two source files are TypeScript. The values they handle are strings, arrays of
  strings, plain objects used as dictionaries, closures, and the argument of type
  \<open>any\<close> that a produced closure forwards. A value of type \<open>any\<close> is kept abstract
  (type variable \<open>'a\<close>); only the two missing values of the language, which the code
  can produce itself (a parameter with no actual argument is \<open>undefined\<close>), are
  distinguished.
\<close>

datatype 'a jsval = JSUndefined | JSNull | JSValue 'a

datatype error = TypeError

text \<open>
  The own properties of an object, in the order in which the language enumerates them.
  \<open>Object.keys\<close> reads the keys and \<open>own_get\<close> the value of an own property. The
  catalog \<open>rpcList\<close> is given by its own properties: the builder only enumerates its
  keys and reads it at these keys.
\<close>

type_synonym 'v properties = "(string \<times> 'v) list"

definition Object_keys :: "'v properties \<Rightarrow> string list" where
  "Object_keys ps = map fst ps"

definition own_get :: "'v properties \<Rightarrow> string \<Rightarrow> 'v option" where
  "own_get ps k = map_of ps k"

text \<open>
  A new own property takes its place in the enumeration order: the keys that are array
  indices (the canonical decimal numerals below \<open>2\<^sup>3\<^sup>2 - 1\<close>) come first, in ascending
  numeric order, and the other keys follow in the order of their creation.
\<close>

definition is_digit :: "char \<Rightarrow> bool" where
  "is_digit c = (c \<in> set ''0123456789'')"

definition decimal :: "string \<Rightarrow> nat" where
  "decimal k = foldl (\<lambda>n c. 10 * n + (of_char c - 48)) 0 k"

definition array_index :: "string \<Rightarrow> nat option" where
  "array_index k =
     (if k \<noteq> [] \<and> list_all is_digit k \<and> (k = ''0'' \<or> hd k \<noteq> CHR ''0'') \<and> decimal k < 4294967295
      then Some (decimal k) else None)"

definition precedes :: "string \<Rightarrow> string \<Rightarrow> bool" where
  "precedes k k' =
     (case array_index k of
        None \<Rightarrow> False
      | Some n \<Rightarrow> (case array_index k' of None \<Rightarrow> True | Some n' \<Rightarrow> n < n'))"

fun create_property :: "string \<Rightarrow> 'v \<Rightarrow> 'v properties \<Rightarrow> 'v properties" where
  "create_property k v [] = [(k, v)]"
| "create_property k v (p # ps) =
     (if precedes k (fst p) then (k, v) # p # ps else p # create_property k v ps)"

text \<open>
  An object that the builder creates with \<open>{}\<close>: its own properties and its prototype.
  The prototype is \<open>Object.prototype\<close> at first (\<open>None\<close>); it changes only when a value
  is assigned under the key \<open>__proto__\<close>, so it is then one of the values that the
  object is given (\<open>Some v\<close>).
\<close>

record 'v js_object =
  own :: "'v properties"
  proto :: "'v option"

definition empty_object :: "'v js_object" where
  "empty_object = \<lparr>own = [], proto = None\<rparr>"

text \<open>
  What an assignment \<open>obj[k] = v\<close> finds under the key \<open>k\<close> on the prototype chain, when
  \<open>k\<close> is not an own property of \<open>obj\<close>:
  \<^item> \<open>ReadOnly\<close>: a data property that is not writable or an accessor whose setter
    throws. The module is strict code, so the assignment throws a \<open>TypeError\<close>;
  \<^item> \<open>ProtoAccessor\<close>: the accessor \<open>__proto__\<close> of \<open>Object.prototype\<close>, whose setter
    makes the assigned object the prototype of \<open>obj\<close> and creates no property;
  \<^item> \<open>Writable\<close>: nothing, or a writable data property: the assignment creates an own
    property of \<open>obj\<close>.
\<close>

datatype lookup = ReadOnly | ProtoAccessor | Writable

text \<open>
  \<open>Object.prototype\<close>: \<open>__proto__\<close> is its accessor, its other members are writable.
\<close>

definition Object_prototype_lookup :: "string \<Rightarrow> lookup" where
  "Object_prototype_lookup k = (if k = ''__proto__'' then ProtoAccessor else Writable)"

text \<open>
  The chain of a function: the function itself, \<open>Function.prototype\<close>, \<open>Object.prototype\<close>.
  \<open>length\<close> and \<open>name\<close> are data properties that are not writable; \<open>caller\<close> and
  \<open>arguments\<close> are accessors of \<open>Function.prototype\<close> whose setter throws; the other
  members of \<open>Function.prototype\<close> are writable.
\<close>

definition function_lookup :: "'f \<Rightarrow> string \<Rightarrow> lookup" where
  "function_lookup f k =
     (if k \<in> set [''length'', ''name'', ''caller'', ''arguments''] then ReadOnly
      else Object_prototype_lookup k)"

text \<open>
  The chain from a prototype on, where \<open>up\<close> describes the chain of a value that was
  made the prototype; and the chain of an object of the builder, itself included: its
  own properties are writable data properties.
\<close>

definition chain_lookup :: "('v \<Rightarrow> string \<Rightarrow> lookup) \<Rightarrow> 'v option \<Rightarrow> string \<Rightarrow> lookup" where
  "chain_lookup up p k = (case p of None \<Rightarrow> Object_prototype_lookup k | Some v \<Rightarrow> up v k)"

definition object_lookup :: "('v \<Rightarrow> string \<Rightarrow> lookup) \<Rightarrow> 'v js_object \<Rightarrow> string \<Rightarrow> lookup" where
  "object_lookup up obj k =
     (if k \<in> set (Object_keys (own obj)) then Writable else chain_lookup up (proto obj) k)"

text \<open>
  The assignment \<open>obj[k] = v\<close> of an object or function \<open>v\<close>, in strict code. An own
  property keeps its place and takes the new value.
\<close>

definition prop_set ::
  "('v \<Rightarrow> string \<Rightarrow> lookup) \<Rightarrow> 'v js_object \<Rightarrow> string \<Rightarrow> 'v \<Rightarrow> error + 'v js_object" where
  "prop_set up obj k v =
     (if k \<in> set (Object_keys (own obj)) then Inr (obj\<lparr>own := AList.update k v (own obj)\<rparr>)
      else case chain_lookup up (proto obj) k of
             ReadOnly \<Rightarrow> Inl TypeError
           | ProtoAccessor \<Rightarrow> Inr (obj\<lparr>proto := Some v\<rparr>)
           | Writable \<Rightarrow> Inr (obj\<lparr>own := create_property k v (own obj)\<rparr>))"

text \<open>
  The read \<open>obj[k]\<close>, as far as it gives a value that was assigned to the object: the
  value of an own property, or, through the getter of \<open>__proto__\<close>, the prototype that
  an assignment installed. Every other read (a missing property, a member inherited
  from further up the chain, the initial prototype) is \<open>None\<close>: it is no entry of
  this object.
\<close>

definition prop_get :: "('v \<Rightarrow> string \<Rightarrow> lookup) \<Rightarrow> 'v js_object \<Rightarrow> string \<Rightarrow> 'v option" where
  "prop_get up obj k =
     (case own_get (own obj) k of
        Some v \<Rightarrow> Some v
      | None \<Rightarrow> (case chain_lookup up (proto obj) k of ProtoAccessor \<Rightarrow> proto obj | _ \<Rightarrow> None))"

text \<open>\<open>Array.prototype.includes\<close> on an array of strings, asked for a string.\<close>

definition array_includes :: "string list \<Rightarrow> string \<Rightarrow> bool" where
  "array_includes xs x = (x \<in> set xs)"

section \<open>The request-sending collaborator\<close>

text \<open>
  \<open>this.requestManager.send\<close> belongs to the host library. It is a parameter of the
  model: an operation on an abstract world \<open>'w\<close> (the network, the manager's state)
  that takes a request and gives a result \<open>'r\<close> (the promise the caller awaits) and
  the world after the request. The field \<open>method\<close> of the request object is written
  \<open>method'\<close>.
\<close>

record 'a request =
  method' :: string
  params :: "'a jsval list"

type_synonym ('a, 'r, 'w) sender = "'a request \<Rightarrow> 'w \<Rightarrow> 'r \<times> 'w"

text \<open>
  A collaborator that keeps the list of the requests it was sent and answers each one
  with \<open>respond\<close>: the world is the log. It is used to observe what a callable sends.
\<close>

definition recording_send :: "('a request \<Rightarrow> 'r) \<Rightarrow> ('a, 'r, 'a request list) sender" where
  "recording_send respond req log = (respond req, log @ [req])"

section \<open>The plugin: \<open>createRpcMethods\<close>\<close>

text \<open>
  A produced function is called with the list of its actual arguments. It has one
  parameter, \<open>args\<close>: the first actual argument, or \<open>undefined\<close> when there is none;
  further arguments are ignored.
\<close>

type_synonym ('a, 'r, 'w) callable = "'a jsval list \<Rightarrow> 'w \<Rightarrow> 'r \<times> 'w"

fun first_parameter :: "'a jsval list \<Rightarrow> 'a jsval" where
  "first_parameter [] = JSUndefined"
| "first_parameter (a # rest) = a"

text \<open>The template literal \<open>`${rpcNamespace}_${endpointName}`\<close>.\<close>

definition qualified_name :: "string \<Rightarrow> string \<Rightarrow> string" where
  "qualified_name rpcNamespace endpointName = rpcNamespace @ ''_'' @ endpointName"

text \<open>
  The arrow function of lines 67 to 71:
  \<open>(args) => this.requestManager.send({ method: `${rpcNamespace}_${endpointName}`, params: [args] })\<close>.
\<close>

definition rpc_caller :: "('a, 'r, 'w) sender \<Rightarrow> string \<Rightarrow> string \<Rightarrow> ('a, 'r, 'w) callable" where
  "rpc_caller send rpcNamespace endpointName =
     (\<lambda>actuals. send \<lparr>method' = qualified_name rpcNamespace endpointName,
                        params = [first_parameter actuals]\<rparr>)"

text \<open>
  The objects \<open>endPoints\<close> hold the arrow functions, and the table \<open>returnedRpcMethods\<close>
  holds the objects \<open>endPoints\<close>.
\<close>

type_synonym ('a, 'r, 'w) endpoints = "('a, 'r, 'w) callable js_object"

type_synonym ('a, 'r, 'w) rpc_methods = "('a, 'r, 'w) endpoints js_object"

definition endPoints_lookup :: "('a, 'r, 'w) endpoints \<Rightarrow> string \<Rightarrow> lookup" where
  "endPoints_lookup = object_lookup function_lookup"

text \<open>
  The inner loop (lines 63 to 72) over the endpoint names of one namespace. The object
  \<open>endPoints\<close> under construction and the world are passed along; an unsupported name
  is skipped (\<open>continue\<close>); an assignment that throws ends the loop.
\<close>

fun endpoints_loop ::
  "('a, 'r, 'w) sender \<Rightarrow> string list \<Rightarrow> string \<Rightarrow> string list \<Rightarrow>
   ('a, 'r, 'w) endpoints \<Rightarrow> 'w \<Rightarrow> (error + ('a, 'r, 'w) endpoints) \<times> 'w" where
  "endpoints_loop send supported rpcNamespace [] endPoints w = (Inr endPoints, w)"
| "endpoints_loop send supported rpcNamespace (endpointName # rest) endPoints w =
     (if \<not> array_includes supported (qualified_name rpcNamespace endpointName)
      then endpoints_loop send supported rpcNamespace rest endPoints w
      else case prop_set function_lookup endPoints endpointName
                  (rpc_caller send rpcNamespace endpointName) of
             Inl err \<Rightarrow> (Inl err, w)
           | Inr endPoints' \<Rightarrow> endpoints_loop send supported rpcNamespace rest endPoints' w)"

text \<open>
  The outer loop (lines 60 to 74) over \<open>Object.keys(rpcList)\<close>. Reading
  \<open>rpcList[rpcNamespace]\<close> gives \<open>undefined\<close> for a missing key, and iterating
  \<open>undefined\<close> with \<open>for ... of\<close> throws a \<open>TypeError\<close>. An exception of the inner loop
  or of the assignment of line 73 leaves the method.
\<close>

fun namespaces_loop ::
  "('a, 'r, 'w) sender \<Rightarrow> string list properties \<Rightarrow> string list \<Rightarrow> string list \<Rightarrow>
   ('a, 'r, 'w) rpc_methods \<Rightarrow> 'w \<Rightarrow> (error + ('a, 'r, 'w) rpc_methods) \<times> 'w" where
  "namespaces_loop send rpcList supported [] returnedRpcMethods w = (Inr returnedRpcMethods, w)"
| "namespaces_loop send rpcList supported (rpcNamespace # rest) returnedRpcMethods w =
     (case own_get rpcList rpcNamespace of
        None \<Rightarrow> (Inl TypeError, w)
      | Some endpointNames \<Rightarrow>
          (case endpoints_loop send supported rpcNamespace endpointNames empty_object w of
             (Inl err, w') \<Rightarrow> (Inl err, w')
           | (Inr endPoints, w') \<Rightarrow>
               (case prop_set endPoints_lookup returnedRpcMethods rpcNamespace endPoints of
                  Inl err \<Rightarrow> (Inl err, w')
                | Inr returnedRpcMethods' \<Rightarrow>
                    namespaces_loop send rpcList supported rest returnedRpcMethods' w')))"

definition createRpcMethods ::
  "('a, 'r, 'w) sender \<Rightarrow> string list properties \<Rightarrow> string list \<Rightarrow> 'w \<Rightarrow>
   (error + ('a, 'r, 'w) rpc_methods) \<times> 'w" where
  "createRpcMethods send rpcList supported w =
     namespaces_loop send rpcList supported (Object_keys rpcList) empty_object w"

text \<open>
  The constructor (lines 111 to 123), after the call of the base class's constructor:
  three tables are built, one after the other. The three catalogs and the three lists
  of supported methods are constants of other modules (the generated lists of each
  network), so they are parameters. An exception of a call leaves the constructor.
\<close>

record ('a, 'r, 'w) PolkadotPlugin =
  polkadot :: "('a, 'r, 'w) rpc_methods"
  kusama :: "('a, 'r, 'w) rpc_methods"
  substrate :: "('a, 'r, 'w) rpc_methods"

definition PolkadotPlugin_constructor ::
  "('a, 'r, 'w) sender \<Rightarrow> string list properties \<Rightarrow> string list \<Rightarrow>
   string list properties \<Rightarrow> string list \<Rightarrow> string list properties \<Rightarrow> string list \<Rightarrow> 'w \<Rightarrow>
   (error + ('a, 'r, 'w) PolkadotPlugin) \<times> 'w" where
  "PolkadotPlugin_constructor send PolkadotRpcList PolkadotSupportedRpcMethods
     KusamaRpcList KusamaSupportedRpcMethods SubstrateRpcList SubstrateSupportedRpcMethods w =
     (case createRpcMethods send PolkadotRpcList PolkadotSupportedRpcMethods w of
        (Inl e, w1) \<Rightarrow> (Inl e, w1)
      | (Inr p, w1) \<Rightarrow>
          (case createRpcMethods send KusamaRpcList KusamaSupportedRpcMethods w1 of
             (Inl e, w2) \<Rightarrow> (Inl e, w2)
           | (Inr k, w2) \<Rightarrow>
               (case createRpcMethods send SubstrateRpcList SubstrateSupportedRpcMethods w2 of
                  (Inl e, w3) \<Rightarrow> (Inl e, w3)
                | (Inr s, w3) \<Rightarrow> (Inr \<lparr>polkadot = p, kusama = k, substrate = s\<rparr>, w3))))"

section \<open>The login check: \<open>isLoggedIn\<close>\<close>

text \<open>
  \<open>localStorage\<close> holds strings under string keys; reading a key that holds nothing
  gives \<open>undefined\<close>. The key \<open>LOCAL_STORAGE.ACCOUNT\<close> is a constant of another
  module, so it is the parameter \<open>ACCOUNT\<close> (taken not to be the name of a built-in
  member of the storage object).
\<close>

type_synonym Storage = "string \<rightharpoonup> string"

definition storage_get :: "Storage \<Rightarrow> string \<Rightarrow> string jsval" where
  "storage_get storage k = (case storage k of None \<Rightarrow> JSUndefined | Some v \<Rightarrow> JSValue v)"

text \<open>The operator \<open>===\<close> between values that are strings or missing.\<close>

definition strict_equals :: "string jsval \<Rightarrow> string jsval \<Rightarrow> bool" where
  "strict_equals a b = (a = b)"

text \<open>
  The account of the wallet extension: of its fields only \<open>address\<close> is read; the
  others live in the record's extension. The parameter of \<open>isLoggedIn\<close> is the
  destructuring pattern \<open>{ address }\<close>, which throws a \<open>TypeError\<close> when the function
  is called with \<open>undefined\<close> or \<open>null\<close>.
\<close>

record InjectedAccountWithMeta =
  address :: string

fun isLoggedIn ::
  "string \<Rightarrow> Storage \<Rightarrow> 'z InjectedAccountWithMeta_scheme jsval \<Rightarrow> error + bool" where
  "isLoggedIn ACCOUNT localStorage JSUndefined = Inl TypeError"
| "isLoggedIn ACCOUNT localStorage JSNull = Inl TypeError"
| "isLoggedIn ACCOUNT localStorage (JSValue account) =
     Inr (strict_equals (storage_get localStorage ACCOUNT) (JSValue (address account)))"

section \<open>Notions of the specification\<close>

text \<open>
  A sequence with its duplicates removed: every element once, at the place of its first
  occurrence.
\<close>

primrec dedup :: "'a list \<Rightarrow> 'a list" where
  "dedup [] = []"
| "dedup (x # xs) = x # filter (\<lambda>y. y \<noteq> x) (dedup xs)"

text \<open>The catalog whose sequence for the namespace \<open>ns\<close> has its duplicates removed.\<close>

definition dedup_namespace :: "string \<Rightarrow> string list properties \<Rightarrow> string list properties" where
  "dedup_namespace ns rpcList = map (\<lambda>(n, names). (n, if n = ns then dedup names else names)) rpcList"

section \<open>Auxiliary notions for the proofs\<close>

text \<open>
  The object that the outer loop assigns under a namespace, when the inner loop returns
  one: the lemmas on the outer loop are stated with it.
\<close>

definition namespace_entry ::
  "('a, 'r, 'w) sender \<Rightarrow> string list properties \<Rightarrow> string list \<Rightarrow> 'w \<Rightarrow> string \<Rightarrow>
   ('a, 'r, 'w) endpoints option" where
  "namespace_entry send rpcList supported w ns =
     (case own_get rpcList ns of
        None \<Rightarrow> None
      | Some names \<Rightarrow>
          (case fst (endpoints_loop send supported ns names empty_object w) of
             Inl err \<Rightarrow> None
           | Inr ep \<Rightarrow> Some ep))"


text \<open>No assignment throws when no function has become a prototype.\<close>

definition plain_proto :: "('a, 'r, 'w) rpc_methods \<Rightarrow> bool" where
  "plain_proto t = (case proto t of None \<Rightarrow> True | Some ep \<Rightarrow> proto ep = None)"

section \<open>Lemmas\<close>

subsection \<open>Own properties\<close>

lemma own_get_keys: "(own_get ps k = None) = (k \<notin> set (Object_keys ps))"
  by (simp add: own_get_def Object_keys_def map_of_eq_None_iff)

lemma keys_create_property:
  "set (Object_keys (create_property k v ps)) = insert k (set (Object_keys ps))"
  by (induction ps) (auto simp: Object_keys_def)

lemma own_get_create_property:
  "k \<notin> set (Object_keys ps) \<Longrightarrow>
   own_get (create_property k v ps) j = (if j = k then Some v else own_get ps j)"
  by (induction ps) (auto simp: Object_keys_def own_get_def)

lemma keys_update:
  "k \<in> set (Object_keys ps) \<Longrightarrow> Object_keys (AList.update k v ps) = Object_keys ps"
  by (simp add: Object_keys_def update_keys)

lemma own_get_update:
  "own_get (AList.update k v ps) j = (if j = k then Some v else own_get ps j)"
  by (simp add: own_get_def update_conv')

subsection \<open>The prototype chain\<close>

lemma Object_prototype_accessor:
  "(Object_prototype_lookup k = ProtoAccessor) = (k = ''__proto__'')"
  by (simp add: Object_prototype_lookup_def)

lemma function_accessor: "(function_lookup f k = ProtoAccessor) = (k = ''__proto__'')"
  by (auto simp: function_lookup_def Object_prototype_lookup_def)

lemma endPoints_accessor:
  "(endPoints_lookup ep k = ProtoAccessor) = (k = ''__proto__'' \<and> ''__proto__'' \<notin> set (Object_keys (own ep)))"
  by (auto simp: endPoints_lookup_def object_lookup_def chain_lookup_def function_accessor
      Object_prototype_accessor split: option.splits)

lemma chain_accessor:
  assumes "\<And>v j. up v j = ProtoAccessor \<Longrightarrow> j = ''__proto__''"
    and "chain_lookup up p k = ProtoAccessor"
  shows "k = ''__proto__''"
  using assms by (auto simp: chain_lookup_def Object_prototype_accessor split: option.splits)

subsection \<open>Assignment and read\<close>

lemma prop_get_prop_set:
  assumes up: "\<And>u j. up u j = ProtoAccessor \<Longrightarrow> j = ''__proto__''"
    and v: "up v ''__proto__'' = ProtoAccessor"
    and set: "prop_set up obj k v = Inr obj'"
  shows "prop_get up obj' j = (if j = k then Some v else prop_get up obj j)"
proof (cases "k \<in> set (Object_keys (own obj))")
  case True
  with set have obj': "obj' = obj\<lparr>own := AList.update k v (own obj)\<rparr>"
    by (simp add: prop_set_def)
  show ?thesis
    by (simp add: obj' prop_get_def own_get_update cong: option.case_cong lookup.case_cong)
next
  case False
  show ?thesis
  proof (cases "chain_lookup up (proto obj) k")
    case ReadOnly
    with False set show ?thesis by (simp add: prop_set_def)
  next
    case Writable
    with False set have obj': "obj' = obj\<lparr>own := create_property k v (own obj)\<rparr>"
      by (simp add: prop_set_def)
    from False Writable show ?thesis
      by (simp add: obj' prop_get_def own_get_create_property
          cong: option.case_cong lookup.case_cong)
  next
    case ProtoAccessor
    with False set have obj': "obj' = obj\<lparr>proto := Some v\<rparr>"
      by (simp add: prop_set_def)
    from chain_accessor [OF up ProtoAccessor] have k: "k = ''__proto__''" .
    from False have none: "own_get (own obj) k = None"
      by (simp add: own_get_keys)
    show ?thesis
    proof (cases "j = k")
      case True
      with none v k show ?thesis
        by (simp add: obj' prop_get_def chain_lookup_def)
    next
      case False
      with k have "up v j \<noteq> ProtoAccessor"
        using up by blast
      moreover from False k have "chain_lookup up (proto obj) j \<noteq> ProtoAccessor"
        using chain_accessor [of up "proto obj" j] up by blast
      ultimately show ?thesis using False
        by (auto simp: obj' prop_get_def chain_lookup_def split: option.splits lookup.splits)
    qed
  qed
qed

lemma prop_set_same:
  "prop_get up obj k = Some v \<Longrightarrow> prop_set up obj k v = Inr obj"
proof (cases "own_get (own obj) k")
  case None
  assume "prop_get up obj k = Some v"
  with None have "chain_lookup up (proto obj) k = ProtoAccessor" "proto obj = Some v"
    by (auto simp: prop_get_def split: lookup.splits)
  moreover from None have "k \<notin> set (Object_keys (own obj))"
    by (simp add: own_get_keys)
  ultimately show ?thesis
    by (simp add: prop_set_def)
next
  case (Some u)
  assume "prop_get up obj k = Some v"
  with Some have v: "own_get (own obj) k = Some v"
    by (simp add: prop_get_def)
  then have "k \<in> set (Object_keys (own obj))"
    using own_get_keys [of "own obj" k] by simp
  moreover from v have "AList.update k v (own obj) = own obj"
    by (simp add: own_get_def update_triv)
  ultimately show ?thesis
    by (simp add: prop_set_def)
qed

lemma keys_prop_set:
  assumes "prop_set up obj k v = Inr obj'"
  shows "set (Object_keys (own obj')) =
      (if k \<in> set (Object_keys (own obj)) \<or> chain_lookup up (proto obj) k = Writable
       then insert k (set (Object_keys (own obj))) else set (Object_keys (own obj)))"
  using assms
  by (auto simp: prop_set_def keys_update keys_create_property split: if_splits lookup.splits)

lemma proto_prop_set:
  assumes "prop_set up obj k v = Inr obj'"
  shows "proto obj' =
      (if k \<notin> set (Object_keys (own obj)) \<and> chain_lookup up (proto obj) k = ProtoAccessor
       then Some v else proto obj)"
  using assms by (auto simp: prop_set_def split: if_splits lookup.splits)

lemma prop_set_succeeds:
  "chain_lookup up (proto obj) k \<noteq> ReadOnly \<Longrightarrow> \<exists>obj'. prop_set up obj k v = Inr obj'"
  by (cases "chain_lookup up (proto obj) k") (simp_all add: prop_set_def)

lemma prop_get_empty: "prop_get up empty_object k = None"
  by (simp add: prop_get_def empty_object_def own_get_def chain_lookup_def
      Object_prototype_lookup_def)


subsection \<open>The inner loop\<close>

lemma endpoints_loop_world:
  "endpoints_loop send supported ns names ep w =
     (fst (endpoints_loop send supported ns names ep w0), w)"
  by (induction names arbitrary: ep) (auto split: sum.splits)

lemma endpoints_loop_reads:
  "endpoints_loop send supported ns names ep0 w = (Inr ep, w') \<Longrightarrow>
   prop_get function_lookup ep e =
     (if e \<in> set names \<and> array_includes supported (qualified_name ns e)
      then Some (rpc_caller send ns e) else prop_get function_lookup ep0 e)"
proof (induction names arbitrary: ep0)
  case Nil
  then show ?case by simp
next
  case (Cons x xs)
  show ?case
  proof (cases "array_includes supported (qualified_name ns x)")
    case False
    with Cons.prems have "endpoints_loop send supported ns xs ep0 w = (Inr ep, w')"
      by simp
    from Cons.IH [OF this] False show ?thesis by auto
  next
    case True
    with Cons.prems obtain ep1
      where step: "prop_set function_lookup ep0 x (rpc_caller send ns x) = Inr ep1"
        and rest: "endpoints_loop send supported ns xs ep1 w = (Inr ep, w')"
      by (auto split: sum.splits)
    have "prop_get function_lookup ep1 e =
        (if e = x then Some (rpc_caller send ns x) else prop_get function_lookup ep0 e)"
      by (rule prop_get_prop_set [OF _ _ step]) (simp_all add: function_accessor)
    with Cons.IH [OF rest] True show ?thesis by auto
  qed
qed

lemma endpoints_loop_no_own_proto:
  "endpoints_loop send supported ns names ep0 w = (Inr ep, w') \<Longrightarrow>
   ''__proto__'' \<notin> set (Object_keys (own ep0)) \<Longrightarrow>
   ''__proto__'' \<notin> set (Object_keys (own ep))"
proof (induction names arbitrary: ep0)
  case Nil
  then show ?case by simp
next
  case (Cons x xs)
  show ?case
  proof (cases "array_includes supported (qualified_name ns x)")
    case False
    with Cons show ?thesis by simp
  next
    case True
    with Cons.prems obtain ep1
      where step: "prop_set function_lookup ep0 x (rpc_caller send ns x) = Inr ep1"
        and rest: "endpoints_loop send supported ns xs ep1 w = (Inr ep, w')"
      by (auto split: sum.splits)
    have "chain_lookup function_lookup (proto ep0) ''__proto__'' \<noteq> Writable"
      by (simp add: chain_lookup_def function_lookup_def Object_prototype_lookup_def
          split: option.splits)
    with keys_prop_set [OF step] Cons.prems(2)
    have "''__proto__'' \<notin> set (Object_keys (own ep1))"
      by (auto split: if_splits)
    from Cons.IH [OF rest this] show ?thesis .
  qed
qed

lemma endpoints_loop_supported_cong:
  "array_includes supported = array_includes supported' \<Longrightarrow>
   endpoints_loop send supported ns names ep w = endpoints_loop send supported' ns names ep w"
  by (induction names arbitrary: ep) (auto split: sum.splits)


lemma endpoints_loop_skip_unsupported:
  "\<not> array_includes supported (qualified_name ns x) \<Longrightarrow>
   endpoints_loop send supported ns (filter (\<lambda>y. y \<noteq> x) ys) ep w =
     endpoints_loop send supported ns ys ep w"
  by (induction ys arbitrary: ep) (auto split: sum.splits)

lemma endpoints_loop_skip_assigned:
  "prop_get function_lookup ep x = Some (rpc_caller send ns x) \<Longrightarrow>
   endpoints_loop send supported ns (filter (\<lambda>y. y \<noteq> x) ys) ep w =
     endpoints_loop send supported ns ys ep w"
proof (induction ys arbitrary: ep)
  case Nil
  show ?case by simp
next
  case (Cons y ys)
  show ?case
  proof (cases "y = x")
    case True
    from prop_set_same [OF Cons.prems]
    have "prop_set function_lookup ep x (rpc_caller send ns x) = Inr ep" .
    with True Cons.IH [OF Cons.prems] show ?thesis by simp
  next
    case False
    show ?thesis
    proof (cases "array_includes supported (qualified_name ns y)")
      case unsupported: False
      with False Cons.IH [OF Cons.prems] show ?thesis by simp
    next
      case supported: True
      show ?thesis
      proof (cases "prop_set function_lookup ep y (rpc_caller send ns y)")
        case (Inl err)
        with False supported show ?thesis by simp
      next
        case (Inr ep1)
        have "prop_get function_lookup ep1 x =
            (if x = y then Some (rpc_caller send ns y) else prop_get function_lookup ep x)"
          by (rule prop_get_prop_set [OF _ _ Inr]) (simp_all add: function_accessor)
        with False Cons.prems
        have "prop_get function_lookup ep1 x = Some (rpc_caller send ns x)"
          by auto
        from Cons.IH [OF this] False supported Inr show ?thesis by simp
      qed
    qed
  qed
qed

lemma endpoints_loop_dedup:
  "endpoints_loop send supported ns (dedup names) ep w =
     endpoints_loop send supported ns names ep w"
proof (induction names arbitrary: ep)
  case Nil
  show ?case by simp
next
  case (Cons x xs)
  show ?case
  proof (cases "array_includes supported (qualified_name ns x)")
    case False
    with Cons.IH [of ep] endpoints_loop_skip_unsupported [OF False, of send "dedup xs" ep w]
    show ?thesis by simp
  next
    case True
    show ?thesis
    proof (cases "prop_set function_lookup ep x (rpc_caller send ns x)")
      case (Inl err)
      with True show ?thesis by simp
    next
      case (Inr ep1)
      have "prop_get function_lookup ep1 x =
          (if x = x then Some (rpc_caller send ns x) else prop_get function_lookup ep x)"
        by (rule prop_get_prop_set [OF _ _ Inr]) (simp_all add: function_accessor)
      then have "prop_get function_lookup ep1 x = Some (rpc_caller send ns x)"
        by simp
      from endpoints_loop_skip_assigned [OF this, of supported "dedup xs" w] Cons.IH [of ep1]
        True Inr
      show ?thesis by simp
    qed
  qed
qed

lemma endpoints_loop_succeeds:
  "proto ep0 = None \<Longrightarrow>
   \<not> (''__proto__'' \<in> set names \<and> array_includes supported (qualified_name ns ''__proto__'')) \<Longrightarrow>
   \<exists>ep. endpoints_loop send supported ns names ep0 w = (Inr ep, w) \<and> proto ep = None"
proof (induction names arbitrary: ep0)
  case Nil
  then show ?case by simp
next
  case (Cons x xs)
  from Cons.prems(2)
  have rest: "\<not> (''__proto__'' \<in> set xs \<and> array_includes supported (qualified_name ns ''__proto__''))"
    by auto
  show ?case
  proof (cases "array_includes supported (qualified_name ns x)")
    case False
    with Cons.IH [OF Cons.prems(1) rest] show ?thesis by simp
  next
    case True
    with Cons.prems(2) have x: "x \<noteq> ''__proto__''" by auto
    with Cons.prems(1) have "chain_lookup function_lookup (proto ep0) x = Writable"
      by (simp add: chain_lookup_def Object_prototype_lookup_def)
    then have "\<exists>ep1. prop_set function_lookup ep0 x (rpc_caller send ns x) = Inr ep1"
      by (intro prop_set_succeeds) simp
    then obtain ep1
      where step: "prop_set function_lookup ep0 x (rpc_caller send ns x) = Inr ep1"
      by blast
    from proto_prop_set [OF step] x Cons.prems(1) have "proto ep1 = None"
      by (auto simp: chain_lookup_def Object_prototype_lookup_def split: if_splits)
    from Cons.IH [OF this rest] True step show ?thesis by simp
  qed
qed


subsection \<open>The outer loop\<close>

lemma namespaces_loop_world:
  "namespaces_loop send rpcList supported keys t w =
     (fst (namespaces_loop send rpcList supported keys t w0), w)"
proof (induction keys arbitrary: t)
  case Nil
  show ?case by simp
next
  case (Cons n rest)
  show ?case
  proof (cases "own_get rpcList n")
    case None
    then show ?thesis by simp
  next
    case (Some names)
    define r where "r = fst (endpoints_loop send supported n names empty_object w0)"
    have at_w: "endpoints_loop send supported n names empty_object w = (r, w)"
      unfolding r_def by (rule endpoints_loop_world)
    have at_w0: "endpoints_loop send supported n names empty_object w0 = (r, w0)"
      unfolding r_def by (rule endpoints_loop_world)
    show ?thesis
    proof (cases r)
      case (Inl err)
      with Some at_w at_w0 show ?thesis by simp
    next
      case (Inr ep)
      show ?thesis
      proof (cases "prop_set endPoints_lookup t n ep")
        case (Inl err)
        with Some at_w at_w0 \<open>r = Inr ep\<close> show ?thesis by simp
      next
        case inner: (Inr t')
        with Some at_w at_w0 \<open>r = Inr ep\<close> Cons.IH [of t'] show ?thesis by simp
      qed
    qed
  qed
qed

text \<open>One step of the outer loop that goes on, taken apart.\<close>

lemma namespaces_loop_step:
  assumes "namespaces_loop send rpcList supported (n # rest) t0 w = (Inr t, w')"
  obtains names ep t1 where
    "own_get rpcList n = Some names"
    "endpoints_loop send supported n names empty_object w = (Inr ep, w)"
    "namespace_entry send rpcList supported w n = Some ep"
    "prop_set endPoints_lookup t0 n ep = Inr t1"
    "namespaces_loop send rpcList supported rest t1 w = (Inr t, w')"
proof -
  from assms obtain names where names: "own_get rpcList n = Some names"
    by (cases "own_get rpcList n") auto
  define r where "r = fst (endpoints_loop send supported n names empty_object w)"
  have run: "endpoints_loop send supported n names empty_object w = (r, w)"
    unfolding r_def by (rule endpoints_loop_world)
  with assms names obtain ep where ep: "r = Inr ep"
    by (cases r) auto
  with assms names run obtain t1
    where t1: "prop_set endPoints_lookup t0 n ep = Inr t1"
      and rest: "namespaces_loop send rpcList supported rest t1 w = (Inr t, w')"
    by (cases "prop_set endPoints_lookup t0 n ep") auto
  from names run ep have "namespace_entry send rpcList supported w n = Some ep"
    by (simp add: namespace_entry_def)
  with names run ep t1 rest that show thesis by simp
qed

lemma endPoints_value_accessor:
  "endpoints_loop send supported n names empty_object w = (Inr ep, w') \<Longrightarrow>
   endPoints_lookup ep ''__proto__'' = ProtoAccessor"
  using endpoints_loop_no_own_proto [of send supported n names empty_object w ep w']
  by (simp add: endPoints_accessor empty_object_def Object_keys_def)

lemma namespaces_loop_reads:
  "namespaces_loop send rpcList supported keys t0 w = (Inr t, w') \<Longrightarrow>
   prop_get endPoints_lookup t N =
     (if N \<in> set keys then namespace_entry send rpcList supported w N
      else prop_get endPoints_lookup t0 N)"
proof (induction keys arbitrary: t0)
  case Nil
  then show ?case by simp
next
  case (Cons n rest)
  from Cons.prems obtain names ep t1
    where run: "endpoints_loop send supported n names empty_object w = (Inr ep, w)"
      and entry: "namespace_entry send rpcList supported w n = Some ep"
      and step: "prop_set endPoints_lookup t0 n ep = Inr t1"
      and rest: "namespaces_loop send rpcList supported rest t1 w = (Inr t, w')"
    by (rule namespaces_loop_step)
  have "prop_get endPoints_lookup t1 N =
      (if N = n then Some ep else prop_get endPoints_lookup t0 N)"
    by (rule prop_get_prop_set [OF _ endPoints_value_accessor [OF run] step])
      (simp add: endPoints_accessor)
  with Cons.IH [OF rest] entry show ?case by auto
qed

lemma namespaces_loop_entries:
  "namespaces_loop send rpcList supported keys t0 w = (Inr t, w') \<Longrightarrow> N \<in> set keys \<Longrightarrow>
   \<exists>ep. namespace_entry send rpcList supported w N = Some ep"
proof (induction keys arbitrary: t0)
  case Nil
  then show ?case by simp
next
  case (Cons n rest)
  from Cons.prems(1) obtain names ep t1
    where entry: "namespace_entry send rpcList supported w n = Some ep"
      and rest: "namespaces_loop send rpcList supported rest t1 w = (Inr t, w')"
    by (rule namespaces_loop_step)
  from Cons.IH [OF rest] Cons.prems(2) entry show ?case by auto
qed


lemma namespaces_loop_supported_cong:
  "array_includes supported = array_includes supported' \<Longrightarrow>
   namespaces_loop send rpcList supported keys t w = namespaces_loop send rpcList supported' keys t w"
proof (induction keys arbitrary: t w)
  case Nil
  show ?case by simp
next
  case (Cons n rest)
  from Cons.prems
  have inner: "endpoints_loop send supported n names empty_object w =
      endpoints_loop send supported' n names empty_object w" for names
    by (rule endpoints_loop_supported_cong)
  show ?case
    by (simp add: inner Cons.IH [OF Cons.prems]
        cong: option.case_cong prod.case_cong sum.case_cong)
qed

lemma own_get_dedup_namespace:
  "own_get (dedup_namespace ns rpcList) n =
     map_option (\<lambda>names. if n = ns then dedup names else names) (own_get rpcList n)"
  by (induction rpcList) (auto simp: dedup_namespace_def own_get_def)

lemma Object_keys_dedup_namespace: "Object_keys (dedup_namespace ns rpcList) = Object_keys rpcList"
  by (induction rpcList) (auto simp: dedup_namespace_def Object_keys_def)

lemma namespaces_loop_dedup:
  "namespaces_loop send (dedup_namespace ns rpcList) supported keys t w =
     namespaces_loop send rpcList supported keys t w"
proof (induction keys arbitrary: t w)
  case Nil
  show ?case by simp
next
  case (Cons n rest)
  show ?case
  proof (cases "own_get rpcList n")
    case None
    then show ?thesis by (simp add: own_get_dedup_namespace)
  next
    case (Some names)
    then show ?thesis
      by (simp add: own_get_dedup_namespace endpoints_loop_dedup Cons.IH
          cong: prod.case_cong sum.case_cong)
  qed
qed

lemma prop_set_plain:
  assumes "plain_proto t" and "proto ep = None"
  shows "\<exists>t1. prop_set endPoints_lookup t n ep = Inr t1 \<and> plain_proto t1"
proof -
  from assms(1) have "chain_lookup endPoints_lookup (proto t) n \<noteq> ReadOnly"
    by (auto simp: plain_proto_def chain_lookup_def endPoints_lookup_def object_lookup_def
        Object_prototype_lookup_def split: option.splits)
  from prop_set_succeeds [OF this] obtain t1
    where step: "prop_set endPoints_lookup t n ep = Inr t1"
    by blast
  from proto_prop_set [OF step] assms have "plain_proto t1"
    by (auto simp: plain_proto_def split: if_splits)
  with step show ?thesis by blast
qed

lemma namespaces_loop_succeeds:
  assumes no_proto: "\<And>N names. own_get rpcList N = Some names \<Longrightarrow> ''__proto__'' \<in> set names \<Longrightarrow>
      \<not> array_includes supported (qualified_name N ''__proto__'')"
  shows "set keys \<subseteq> set (Object_keys rpcList) \<Longrightarrow> plain_proto t0 \<Longrightarrow>
    \<exists>t. namespaces_loop send rpcList supported keys t0 w = (Inr t, w)"
proof (induction keys arbitrary: t0)
  case Nil
  show ?case by simp
next
  case (Cons n rest)
  from Cons.prems(1) have "own_get rpcList n \<noteq> None"
    by (simp add: own_get_keys)
  then obtain names where names: "own_get rpcList n = Some names" by blast
  from no_proto [OF names]
  have "\<not> (''__proto__'' \<in> set names \<and> array_includes supported (qualified_name n ''__proto__''))"
    by blast
  from endpoints_loop_succeeds [OF _ this, of empty_object send w] obtain ep
    where run: "endpoints_loop send supported n names empty_object w = (Inr ep, w)"
      and ep: "proto ep = None"
    by (auto simp: empty_object_def)
  from prop_set_plain [OF Cons.prems(2) ep, of n] obtain t1
    where step: "prop_set endPoints_lookup t0 n ep = Inr t1" and plain: "plain_proto t1"
    by blast
  from Cons.prems(1) have "set rest \<subseteq> set (Object_keys rpcList)" by simp
  from Cons.IH [OF this plain] names run step show ?case by simp
qed

subsection \<open>The builder\<close>

text \<open>
  The outer loop taken alone does reach its first failing branch, when it is given a key
  the catalog does not have; \<open>createRpcMethods\<close> only gives it the catalog's own keys.
\<close>

lemma namespaces_loop_can_fail:
  "namespaces_loop send [] supported [''chain''] empty_object w = (Inl TypeError, w)"
  by (simp add: own_get_def)

text \<open>The definitions that evaluate a run on a concrete input.\<close>

lemmas eval_defs =
  createRpcMethods_def Object_keys_def own_get_def prop_set_def prop_get_def chain_lookup_def
  Object_prototype_lookup_def function_lookup_def endPoints_lookup_def object_lookup_def
  empty_object_def array_includes_def qualified_name_def precedes_def array_index_def
  is_digit_def

lemma createRpcMethods_world:
  "createRpcMethods send rpcList supported w =
     (fst (createRpcMethods send rpcList supported w0), w)"
  unfolding createRpcMethods_def by (rule namespaces_loop_world)

lemma createRpcMethods_frame: "snd (createRpcMethods send rpcList supported w) = w"
  by (subst createRpcMethods_world [of send rpcList supported w w]) (rule snd_conv)

lemma createRpcMethods_run:
  "createRpcMethods send rpcList supported w =
     (fst (createRpcMethods send rpcList supported w), w)"
  by (rule createRpcMethods_world)

lemma table_entry:
  assumes run: "createRpcMethods send rpcList supported w = (Inr table, w')"
    and ns: "prop_get endPoints_lookup table N = Some endPoints"
  shows "\<exists>names. own_get rpcList N = Some names \<and>
           (\<forall>e. prop_get function_lookup endPoints e =
              (if e \<in> set names \<and> array_includes supported (qualified_name N e)
               then Some (rpc_caller send N e) else None))"
proof -
  from run have loop: "namespaces_loop send rpcList supported (Object_keys rpcList) empty_object w =
      (Inr table, w')"
    by (simp add: createRpcMethods_def)
  from namespaces_loop_reads [OF loop, of N] ns
  have entry: "namespace_entry send rpcList supported w N = Some endPoints"
    by (simp add: prop_get_empty split: if_splits)
  then obtain names where names: "own_get rpcList N = Some names"
    and "fst (endpoints_loop send supported N names empty_object w) = Inr endPoints"
    by (auto simp: namespace_entry_def split: option.splits sum.splits)
  with endpoints_loop_world [of send supported N names empty_object w w]
  have "endpoints_loop send supported N names empty_object w = (Inr endPoints, w)"
    by simp
  from endpoints_loop_reads [OF this] names show ?thesis
    by (simp add: prop_get_empty)
qed

lemma table_has_entry:
  assumes run: "createRpcMethods send rpcList supported w = (Inr table, w')"
    and names: "own_get rpcList N = Some names"
  shows "\<exists>endPoints. prop_get endPoints_lookup table N = Some endPoints \<and>
           endpoints_loop send supported N names empty_object w = (Inr endPoints, w)"
proof -
  from run have loop: "namespaces_loop send rpcList supported (Object_keys rpcList) empty_object w =
      (Inr table, w')"
    by (simp add: createRpcMethods_def)
  from names have N: "N \<in> set (Object_keys rpcList)"
    using own_get_keys [of rpcList N] by simp
  from namespaces_loop_entries [OF loop N] obtain endPoints
    where entry: "namespace_entry send rpcList supported w N = Some endPoints"
    by blast
  with names have "fst (endpoints_loop send supported N names empty_object w) = Inr endPoints"
    by (auto simp: namespace_entry_def split: sum.splits)
  with endpoints_loop_world [of send supported N names empty_object w w]
  have "endpoints_loop send supported N names empty_object w = (Inr endPoints, w)"
    by simp
  moreover from namespaces_loop_reads [OF loop, of N] N entry
  have "prop_get endPoints_lookup table N = Some endPoints"
    by simp
  ultimately show ?thesis by blast
qed


section \<open>The claims of the specification\<close>

text \<open>
  Claim C1. Every entry of the table the builder returns is justified by membership.
  An entry is what a read gives of the values assigned to the object: an own property,
  or the prototype installed under \<open>__proto__\<close>. Let the builder return \<open>table\<close>, and
  let \<open>endPoints\<close> be its entry under the namespace \<open>N\<close>. Then the catalog has a
  sequence \<open>names\<close> for \<open>N\<close>, and every entry \<open>e\<close> of \<open>endPoints\<close> is an element of
  \<open>names\<close>, its identifier \<open>N_e\<close> is in the supported list, and the callable found
  there sends, for every list of arguments and from every world, the request whose
  method name is \<open>N_e\<close>: a name that is in the supported list. An endpoint whose
  identifier is not in the supported list has no entry.
\<close>

theorem entries_justified_by_membership:
  assumes run: "createRpcMethods send rpcList supported w = (Inr table, w')"
    and ns: "prop_get endPoints_lookup table N = Some endPoints"
  shows "\<exists>names. own_get rpcList N = Some names \<and>
           (\<forall>e f. prop_get function_lookup endPoints e = Some f \<longrightarrow>
              e \<in> set names \<and> array_includes supported (qualified_name N e) \<and>
              (\<forall>actuals w0. f actuals w0 =
                 send \<lparr>method' = qualified_name N e, params = [first_parameter actuals]\<rparr> w0)) \<and>
           (\<forall>e. \<not> array_includes supported (qualified_name N e) \<longrightarrow>
              prop_get function_lookup endPoints e = None)"
proof -
  from table_entry [OF run ns] obtain names
    where names: "own_get rpcList N = Some names"
      and reads: "\<And>e. prop_get function_lookup endPoints e =
              (if e \<in> set names \<and> array_includes supported (qualified_name N e)
               then Some (rpc_caller send N e) else None)"
    by blast
  show ?thesis
    using names by (simp add: reads rpc_caller_def)
qed

text \<open>
  The scenario of the specification: catalog \<open>{ chain: ["getBlock", "getBlockHash"] }\<close>,
  supported \<open>{ "chain_getBlock" }\<close>, with a collaborator that records what it is sent.
\<close>

theorem entries_justified_by_membership_witness:
  "createRpcMethods (recording_send (method' :: string request \<Rightarrow> string))
       [(''chain'', [''getBlock'', ''getBlockHash''])] [''chain_getBlock''] [] =
     (Inr \<lparr>own = [(''chain'',
              \<lparr>own = [(''getBlock'', rpc_caller (recording_send method') ''chain'' ''getBlock'')],
               proto = None\<rparr>)],
           proto = None\<rparr>, []) \<and>
   prop_get endPoints_lookup
       \<lparr>own = [(''chain'',
          \<lparr>own = [(''getBlock'',
             rpc_caller (recording_send (method' :: string request \<Rightarrow> string)) ''chain'' ''getBlock'')],
           proto = None\<rparr>)],
        proto = None\<rparr> ''chain'' =
     Some \<lparr>own = [(''getBlock'', rpc_caller (recording_send method') ''chain'' ''getBlock'')],
           proto = None\<rparr> \<and>
   prop_get function_lookup
       \<lparr>own = [(''getBlock'',
          rpc_caller (recording_send (method' :: string request \<Rightarrow> string)) ''chain'' ''getBlock'')],
        proto = None\<rparr> ''getBlock'' =
     Some (rpc_caller (recording_send method') ''chain'' ''getBlock'') \<and>
   own_get [(''chain'', [''getBlock'', ''getBlockHash''])] ''chain'' = Some [''getBlock'', ''getBlockHash''] \<and>
   ''getBlock'' \<in> set [''getBlock'', ''getBlockHash''] \<and>
   array_includes [''chain_getBlock''] (qualified_name ''chain'' ''getBlock'') \<and>
   rpc_caller (recording_send (method' :: string request \<Rightarrow> string)) ''chain'' ''getBlock'' [JSValue ''0xhash''] [] =
     (''chain_getBlock'', [\<lparr>method' = ''chain_getBlock'', params = [JSValue ''0xhash'']\<rparr>]) \<and>
   prop_get function_lookup
       \<lparr>own = [(''getBlock'',
          rpc_caller (recording_send (method' :: string request \<Rightarrow> string)) ''chain'' ''getBlock'')],
        proto = None\<rparr> ''getBlockHash'' = None"
proof -
  let ?send = "recording_send (method' :: string request \<Rightarrow> string)"
  let ?f = "rpc_caller ?send ''chain'' ''getBlock''"
  let ?EP = "\<lparr>own = [(''getBlock'', ?f)], proto = None\<rparr>"
  let ?T = "\<lparr>own = [(''chain'', ?EP)], proto = None\<rparr>"
  have run: "createRpcMethods ?send [(''chain'', [''getBlock'', ''getBlockHash''])] [''chain_getBlock''] [] =
      (Inr ?T, [])"
    by (simp add: eval_defs)
  have ns: "prop_get endPoints_lookup ?T ''chain'' = Some ?EP"
    by (simp add: eval_defs)
  have ep: "prop_get function_lookup ?EP ''getBlock'' = Some ?f"
    by (simp add: eval_defs)
  from entries_justified_by_membership [OF run ns] obtain names
    where names: "own_get [(''chain'', [''getBlock'', ''getBlockHash''])] ''chain'' = Some names"
      and just: "\<forall>e f. prop_get function_lookup ?EP e = Some f \<longrightarrow>
              e \<in> set names \<and> array_includes [''chain_getBlock''] (qualified_name ''chain'' e) \<and>
              (\<forall>actuals w0. f actuals w0 =
                 ?send \<lparr>method' = qualified_name ''chain'' e, params = [first_parameter actuals]\<rparr> w0)"
      and omit: "\<forall>e. \<not> array_includes [''chain_getBlock''] (qualified_name ''chain'' e) \<longrightarrow>
              prop_get function_lookup ?EP e = None"
    by blast
  from names have names_eq: "names = [''getBlock'', ''getBlockHash'']"
    by (simp add: own_get_def)
  from just ep have
    "''getBlock'' \<in> set names \<and> array_includes [''chain_getBlock''] (qualified_name ''chain'' ''getBlock'') \<and>
       (\<forall>actuals w0. ?f actuals w0 =
          ?send \<lparr>method' = qualified_name ''chain'' ''getBlock'', params = [first_parameter actuals]\<rparr> w0)"
    by blast
  then have
    mem: "''getBlock'' \<in> set names"
    and sup: "array_includes [''chain_getBlock''] (qualified_name ''chain'' ''getBlock'')"
    and fwd: "?f [JSValue ''0xhash''] [] =
          ?send \<lparr>method' = qualified_name ''chain'' ''getBlock'', params = [first_parameter [JSValue ''0xhash'']]\<rparr> []"
    by blast+
  from fwd have call: "?f [JSValue ''0xhash''] [] =
      (''chain_getBlock'', [\<lparr>method' = ''chain_getBlock'', params = [JSValue ''0xhash'']\<rparr>])"
    by (simp add: recording_send_def qualified_name_def)
  have "\<not> array_includes [''chain_getBlock''] (qualified_name ''chain'' ''getBlockHash'')"
    by (simp add: array_includes_def qualified_name_def)
  with omit have none: "prop_get function_lookup ?EP ''getBlockHash'' = None"
    by blast
  from run ns ep names mem sup call none show ?thesis
    unfolding names_eq by (intro conjI)
qed

text \<open>
  Claim C2. When the builder returns, then for a namespace \<open>N\<close> of the catalog and a
  supported endpoint name \<open>e\<close> of its sequence, reading \<open>table[N][e]\<close> gives a callable,
  and calling it with the single argument \<open>a\<close> is sending the request
  \<open>{ method: "N_e", params: [a] }\<close> to the collaborator: the result and the world after
  the call are the collaborator's.
\<close>

theorem callable_forwards_request:
  assumes run: "createRpcMethods send rpcList supported w = (Inr table, w')"
    and names: "own_get rpcList N = Some names"
    and e: "e \<in> set names"
    and sup: "array_includes supported (qualified_name N e)"
  shows "\<exists>endPoints f. prop_get endPoints_lookup table N = Some endPoints \<and>
           prop_get function_lookup endPoints e = Some f \<and>
           f [a] w0 = send \<lparr>method' = qualified_name N e, params = [a]\<rparr> w0"
proof -
  from table_has_entry [OF run names] obtain endPoints
    where ns: "prop_get endPoints_lookup table N = Some endPoints"
      and inner: "endpoints_loop send supported N names empty_object w = (Inr endPoints, w)"
    by blast
  from endpoints_loop_reads [OF inner, of e] e sup
  have "prop_get function_lookup endPoints e = Some (rpc_caller send N e)"
    by simp
  moreover
  have "rpc_caller send N e [a] w0 = send \<lparr>method' = qualified_name N e, params = [a]\<rparr> w0"
    by (simp add: rpc_caller_def)
  ultimately show ?thesis using ns by blast
qed

text \<open>
  The scenario of the specification: \<open>chain.getBlock("0xhash")\<close> with the recording
  collaborator, which here answers a request with a string made from its method name.
\<close>

theorem callable_forwards_request_witness:
  "createRpcMethods (recording_send (\<lambda>req :: string request. ''result of '' @ method' req))
       [(''chain'', [''getBlock'', ''getBlockHash''])] [''chain_getBlock''] [] =
     (Inr \<lparr>own = [(''chain'',
              \<lparr>own = [(''getBlock'',
                 rpc_caller (recording_send (\<lambda>req. ''result of '' @ method' req)) ''chain'' ''getBlock'')],
               proto = None\<rparr>)],
           proto = None\<rparr>, []) \<and>
   own_get [(''chain'', [''getBlock'', ''getBlockHash''])] ''chain'' = Some [''getBlock'', ''getBlockHash''] \<and>
   ''getBlock'' \<in> set [''getBlock'', ''getBlockHash''] \<and>
   array_includes [''chain_getBlock''] (qualified_name ''chain'' ''getBlock'') \<and>
   (\<exists>endPoints f.
      prop_get endPoints_lookup
        \<lparr>own = [(''chain'',
           \<lparr>own = [(''getBlock'',
              rpc_caller (recording_send (\<lambda>req :: string request. ''result of '' @ method' req))
                ''chain'' ''getBlock'')],
            proto = None\<rparr>)],
         proto = None\<rparr> ''chain'' = Some endPoints \<and>
      prop_get function_lookup endPoints ''getBlock'' = Some f \<and>
      f [JSValue ''0xhash''] [] =
        (''result of chain_getBlock'', [\<lparr>method' = ''chain_getBlock'', params = [JSValue ''0xhash'']\<rparr>]))"
proof -
  let ?send = "recording_send (\<lambda>req :: string request. ''result of '' @ method' req)"
  let ?f = "rpc_caller ?send ''chain'' ''getBlock''"
  let ?T = "\<lparr>own = [(''chain'', \<lparr>own = [(''getBlock'', ?f)], proto = None\<rparr>)], proto = None\<rparr>"
  have run: "createRpcMethods ?send [(''chain'', [''getBlock'', ''getBlockHash''])] [''chain_getBlock''] [] =
      (Inr ?T, [])"
    by (simp add: eval_defs)
  have names: "own_get [(''chain'', [''getBlock'', ''getBlockHash''])] ''chain'' =
      Some [''getBlock'', ''getBlockHash'']"
    by (simp add: own_get_def)
  have e: "''getBlock'' \<in> set [''getBlock'', ''getBlockHash'']"
    by simp
  have sup: "array_includes [''chain_getBlock''] (qualified_name ''chain'' ''getBlock'')"
    by (simp add: array_includes_def qualified_name_def)
  have sent: "?send \<lparr>method' = qualified_name ''chain'' ''getBlock'', params = [JSValue ''0xhash'']\<rparr> [] =
      (''result of chain_getBlock'', [\<lparr>method' = ''chain_getBlock'', params = [JSValue ''0xhash'']\<rparr>])"
    by (simp add: recording_send_def qualified_name_def)
  from callable_forwards_request [OF run names e sup, of "JSValue ''0xhash''" "[]"] sent
  have "\<exists>endPoints f.
      prop_get endPoints_lookup ?T ''chain'' = Some endPoints \<and>
      prop_get function_lookup endPoints ''getBlock'' = Some f \<and>
      f [JSValue ''0xhash''] [] =
        (''result of chain_getBlock'', [\<lparr>method' = ''chain_getBlock'', params = [JSValue ''0xhash'']\<rparr>])"
    by simp
  with run names e sup show ?thesis by (intro conjI)
qed




text \<open>
  Claim C4. For every account record, \<open>isLoggedIn\<close> returns a boolean, never an error,
  and the boolean is true exactly when the value stored under the account key is the
  account's address. When nothing is stored under the key, it is false for every
  address.
\<close>

theorem isLoggedIn_compares_stored_address:
  "isLoggedIn ACCOUNT localStorage (JSValue account) =
     Inr (localStorage ACCOUNT = Some (address account)) \<and>
   isLoggedIn ACCOUNT (localStorage(ACCOUNT := None)) (JSValue account) = Inr False"
  by (simp add: strict_equals_def storage_get_def split: option.splits)

text \<open>
  The scenario of the specification: \<open>"0xABC"\<close> stored, asked with \<open>"0xABC"\<close> and with
  \<open>"0xDEF"\<close>; and nothing stored.
\<close>

theorem isLoggedIn_compares_stored_address_witness:
  "isLoggedIn ''account'' [''account'' \<mapsto> ''0xABC''] (JSValue \<lparr>address = ''0xABC''\<rparr>) = Inr True \<and>
   isLoggedIn ''account'' [''account'' \<mapsto> ''0xABC''] (JSValue \<lparr>address = ''0xDEF''\<rparr>) = Inr False \<and>
   isLoggedIn ''account'' Map.empty (JSValue \<lparr>address = ''0xDEF''\<rparr>) = Inr False"
  using isLoggedIn_compares_stored_address [of "''account''" "[''account'' \<mapsto> ''0xABC'']" "\<lparr>address = ''0xABC''\<rparr>"]
    isLoggedIn_compares_stored_address [of "''account''" "[''account'' \<mapsto> ''0xABC'']" "\<lparr>address = ''0xDEF''\<rparr>"]
    isLoggedIn_compares_stored_address [of "''account''" "Map.empty" "\<lparr>address = ''0xDEF''\<rparr>"]
  by simp

text \<open>
  Claim C5. Building from the same catalog and supported list has the same outcome
  whatever the world the builder starts in: the same table, hence the same outer keys,
  the same inner keys and callables that send the same request for the same arguments
  (or, for an input on which the builder throws, the same exception). In particular a
  second run, in the world the first run left, gives what the first run gave.
\<close>

theorem building_twice_same_table:
  "fst (createRpcMethods send rpcList supported w) = fst (createRpcMethods send rpcList supported w') \<and>
   fst (createRpcMethods send rpcList supported (snd (createRpcMethods send rpcList supported w))) =
     fst (createRpcMethods send rpcList supported w)"
  using createRpcMethods_world [of send rpcList supported w w']
    createRpcMethods_world
      [of send rpcList supported "snd (createRpcMethods send rpcList supported w)" w]
  by simp

text \<open>
  A first run with an empty log, and a second run after \<open>chain.getBlock("0xhash")\<close> was
  called: the recording collaborator has logged one request.
\<close>

theorem building_twice_same_table_witness:
  "fst (createRpcMethods (recording_send (method' :: string request \<Rightarrow> string))
       [(''chain'', [''getBlock'', ''getBlockHash''])] [''chain_getBlock''] []) =
     Inr \<lparr>own = [(''chain'',
              \<lparr>own = [(''getBlock'', rpc_caller (recording_send method') ''chain'' ''getBlock'')],
               proto = None\<rparr>)],
           proto = None\<rparr> \<and>
   fst (createRpcMethods (recording_send (method' :: string request \<Rightarrow> string))
       [(''chain'', [''getBlock'', ''getBlockHash''])] [''chain_getBlock'']
       [\<lparr>method' = ''chain_getBlock'', params = [JSValue ''0xhash'']\<rparr>]) =
     Inr \<lparr>own = [(''chain'',
              \<lparr>own = [(''getBlock'', rpc_caller (recording_send method') ''chain'' ''getBlock'')],
               proto = None\<rparr>)],
           proto = None\<rparr>"
proof -
  let ?send = "recording_send (method' :: string request \<Rightarrow> string)"
  let ?C = "[(''chain'', [''getBlock'', ''getBlockHash''])]"
  let ?T = "\<lparr>own = [(''chain'', \<lparr>own = [(''getBlock'', rpc_caller ?send ''chain'' ''getBlock'')],
      proto = None\<rparr>)], proto = None\<rparr>"
  have first: "fst (createRpcMethods ?send ?C [''chain_getBlock''] []) = Inr ?T"
    by (simp add: eval_defs)
  from building_twice_same_table [of ?send ?C "[''chain_getBlock'']" "[]"
      "[\<lparr>method' = ''chain_getBlock'', params = [JSValue ''0xhash'']\<rparr>]"]
  have "fst (createRpcMethods ?send ?C [''chain_getBlock'']
      [\<lparr>method' = ''chain_getBlock'', params = [JSValue ''0xhash'']\<rparr>]) =
      fst (createRpcMethods ?send ?C [''chain_getBlock''] [])"
    by simp
  with first show ?thesis by simp
qed

text \<open>
  Claim C6. When the sequence of a namespace holds a name more than once, each further
  occurrence assigns the key that the first one created, with a callable that behaves
  like the one it replaces. The outcome of the builder is its outcome for the catalog
  whose sequence for that namespace has its duplicates removed. The second part is the
  step of the inner loop at a supported name that is already a key: the keys stay as
  they are, the key holds the callable written last, and the other entries are
  untouched.
\<close>

theorem duplicates_overwrite:
  "createRpcMethods send (dedup_namespace ns rpcList) supported w =
     createRpcMethods send rpcList supported w \<and>
   (array_includes supported (qualified_name N e) \<and> e \<in> set (Object_keys (own endPoints)) \<longrightarrow>
      (\<exists>endPoints'. endpoints_loop send supported N [e] endPoints w = (Inr endPoints', w) \<and>
         Object_keys (own endPoints') = Object_keys (own endPoints) \<and>
         prop_get function_lookup endPoints' e = Some (rpc_caller send N e) \<and>
         (\<forall>k. k \<noteq> e \<longrightarrow> prop_get function_lookup endPoints' k = prop_get function_lookup endPoints k)))"
proof -
  have equal: "createRpcMethods send (dedup_namespace ns rpcList) supported w =
      createRpcMethods send rpcList supported w"
    by (simp add: createRpcMethods_def Object_keys_dedup_namespace namespaces_loop_dedup)
  have overwrite: "\<exists>endPoints'. endpoints_loop send supported N [e] endPoints w = (Inr endPoints', w) \<and>
         Object_keys (own endPoints') = Object_keys (own endPoints) \<and>
         prop_get function_lookup endPoints' e = Some (rpc_caller send N e) \<and>
         (\<forall>k. k \<noteq> e \<longrightarrow> prop_get function_lookup endPoints' k = prop_get function_lookup endPoints k)"
    if sup: "array_includes supported (qualified_name N e)"
      and key: "e \<in> set (Object_keys (own endPoints))"
  proof -
    let ?new = "endPoints\<lparr>own := AList.update e (rpc_caller send N e) (own endPoints)\<rparr>"
    from key have step: "prop_set function_lookup endPoints e (rpc_caller send N e) = Inr ?new"
      by (simp add: prop_set_def)
    have reads: "prop_get function_lookup ?new k =
        (if k = e then Some (rpc_caller send N e) else prop_get function_lookup endPoints k)" for k
      by (rule prop_get_prop_set [OF _ _ step]) (simp_all add: function_accessor)
    from sup step have "endpoints_loop send supported N [e] endPoints w = (Inr ?new, w)"
      by simp
    moreover from key have "Object_keys (own ?new) = Object_keys (own endPoints)"
      by (simp add: keys_update)
    ultimately show ?thesis using reads by auto
  qed
  from equal overwrite show ?thesis by blast
qed

text \<open>
  The sequence \<open>getBlock, getBlockHash, getBlock\<close>, both endpoints supported; and one
  step of the inner loop on an object that already has the key \<open>getBlock\<close>, with
  another callable under it.
\<close>

theorem duplicates_overwrite_witness:
  "dedup_namespace ''chain'' [(''chain'', [''getBlock'', ''getBlockHash'', ''getBlock''])] =
     [(''chain'', [''getBlock'', ''getBlockHash''])] \<and>
   createRpcMethods (recording_send (method' :: string request \<Rightarrow> string))
       [(''chain'', [''getBlock'', ''getBlockHash''])] [''chain_getBlock'', ''chain_getBlockHash''] [] =
   createRpcMethods (recording_send method')
       [(''chain'', [''getBlock'', ''getBlockHash'', ''getBlock''])] [''chain_getBlock'', ''chain_getBlockHash''] [] \<and>
   array_includes [''chain_getBlock'', ''chain_getBlockHash''] (qualified_name ''chain'' ''getBlock'') \<and>
   ''getBlock'' \<in> set (Object_keys (own
       \<lparr>own = [(''getBlock'', rpc_caller (recording_send (method' :: string request \<Rightarrow> string)) ''state'' ''call''),
               (''getBlockHash'', rpc_caller (recording_send method') ''chain'' ''getBlockHash'')],
        proto = None\<rparr>)) \<and>
   endpoints_loop (recording_send (method' :: string request \<Rightarrow> string))
       [''chain_getBlock'', ''chain_getBlockHash''] ''chain'' [''getBlock'']
       \<lparr>own = [(''getBlock'', rpc_caller (recording_send method') ''state'' ''call''),
               (''getBlockHash'', rpc_caller (recording_send method') ''chain'' ''getBlockHash'')],
        proto = None\<rparr> [] =
     (Inr \<lparr>own = [(''getBlock'', rpc_caller (recording_send method') ''chain'' ''getBlock''),
                  (''getBlockHash'', rpc_caller (recording_send method') ''chain'' ''getBlockHash'')],
           proto = None\<rparr>, []) \<and>
   prop_get function_lookup
       \<lparr>own = [(''getBlock'', rpc_caller (recording_send (method' :: string request \<Rightarrow> string)) ''chain'' ''getBlock''),
               (''getBlockHash'', rpc_caller (recording_send method') ''chain'' ''getBlockHash'')],
        proto = None\<rparr> ''getBlock'' =
     Some (rpc_caller (recording_send method') ''chain'' ''getBlock'')"
proof -
  let ?send = "recording_send (method' :: string request \<Rightarrow> string)"
  let ?S = "[''chain_getBlock'', ''chain_getBlockHash'']"
  let ?old = "\<lparr>own = [(''getBlock'', rpc_caller ?send ''state'' ''call''),
      (''getBlockHash'', rpc_caller ?send ''chain'' ''getBlockHash'')], proto = None\<rparr>"
  let ?new = "\<lparr>own = [(''getBlock'', rpc_caller ?send ''chain'' ''getBlock''),
      (''getBlockHash'', rpc_caller ?send ''chain'' ''getBlockHash'')], proto = None\<rparr>"
  have dd: "dedup_namespace ''chain'' [(''chain'', [''getBlock'', ''getBlockHash'', ''getBlock''])] =
      [(''chain'', [''getBlock'', ''getBlockHash''])]"
    by (simp add: dedup_namespace_def)
  have sup: "array_includes ?S (qualified_name ''chain'' ''getBlock'')"
    by (simp add: array_includes_def qualified_name_def)
  have key: "''getBlock'' \<in> set (Object_keys (own ?old))"
    by (simp add: Object_keys_def)
  note inst = duplicates_overwrite [of ?send "''chain''"
      "[(''chain'', [''getBlock'', ''getBlockHash'', ''getBlock''])]" ?S "[]"
      "''chain''" "''getBlock''" ?old]
  from inst have equal: "createRpcMethods ?send [(''chain'', [''getBlock'', ''getBlockHash''])] ?S [] =
      createRpcMethods ?send [(''chain'', [''getBlock'', ''getBlockHash'', ''getBlock''])] ?S []"
    unfolding dd by blast
  from inst sup key obtain endPoints'
    where step: "endpoints_loop ?send ?S ''chain'' [''getBlock''] ?old [] = (Inr endPoints', [])"
      and new: "prop_get function_lookup endPoints' ''getBlock'' = Some (rpc_caller ?send ''chain'' ''getBlock'')"
    by blast
  have run: "endpoints_loop ?send ?S ''chain'' [''getBlock''] ?old [] = (Inr ?new, [])"
    by (simp add: eval_defs)
  with step have "endPoints' = ?new"
    by simp
  with new have "prop_get function_lookup ?new ''getBlock'' = Some (rpc_caller ?send ''chain'' ''getBlock'')"
    by simp
  with dd equal sup key run show ?thesis by (intro conjI)
qed

text \<open>
  Claim C7, as amended. For every catalog (a mapping from strings to sequences of
  strings) and every list of supported strings such that no supported endpoint is named
  \<open>__proto__\<close>, the builder returns a table: no branch that throws is reached. The
  recursion of both loops is on the list they traverse, so the builder always
  terminates.
\<close>

theorem builder_returns_without_proto_endpoint:
  assumes "\<forall>N names. own_get rpcList N = Some names \<longrightarrow> ''__proto__'' \<in> set names \<longrightarrow>
      \<not> array_includes supported (qualified_name N ''__proto__'')"
  shows "\<exists>table. createRpcMethods send rpcList supported w = (Inr table, w)"
  unfolding createRpcMethods_def
proof (rule namespaces_loop_succeeds)
  fix N names
  assume "own_get rpcList N = Some names" and "''__proto__'' \<in> set names"
  with assms show "\<not> array_includes supported (qualified_name N ''__proto__'')"
    by blast
next
  show "set (Object_keys rpcList) \<subseteq> set (Object_keys rpcList)"
    by simp
next
  show "plain_proto empty_object"
    by (simp add: plain_proto_def empty_object_def)
qed

text \<open>
  A sequence that holds \<open>__proto__\<close>, which is not supported, and \<open>length\<close>, which is:
  \<open>length\<close> becomes an own property.
\<close>

theorem builder_returns_without_proto_endpoint_witness:
  "\<not> array_includes [''chain_getBlock'', ''chain_length''] (qualified_name ''chain'' ''__proto__'') \<and>
   (\<exists>table. createRpcMethods (recording_send (method' :: string request \<Rightarrow> string))
       [(''chain'', [''getBlock'', ''__proto__'', ''length''])] [''chain_getBlock'', ''chain_length''] [] =
     (Inr table, [])) \<and>
   createRpcMethods (recording_send (method' :: string request \<Rightarrow> string))
       [(''chain'', [''getBlock'', ''__proto__'', ''length''])] [''chain_getBlock'', ''chain_length''] [] =
     (Inr \<lparr>own = [(''chain'',
              \<lparr>own = [(''getBlock'', rpc_caller (recording_send method') ''chain'' ''getBlock''),
                      (''length'', rpc_caller (recording_send method') ''chain'' ''length'')],
               proto = None\<rparr>)],
           proto = None\<rparr>, [])"
proof -
  let ?send = "recording_send (method' :: string request \<Rightarrow> string)"
  let ?C = "[(''chain'', [''getBlock'', ''__proto__'', ''length''])]"
  let ?S = "[''chain_getBlock'', ''chain_length'']"
  have unsupported: "\<not> array_includes ?S (qualified_name ''chain'' ''__proto__'')"
    by (simp add: array_includes_def qualified_name_def)
  then have "\<forall>N names. own_get ?C N = Some names \<longrightarrow> ''__proto__'' \<in> set names \<longrightarrow>
      \<not> array_includes ?S (qualified_name N ''__proto__'')"
    by (simp add: own_get_def)
  from builder_returns_without_proto_endpoint [OF this, of ?send "[]"]
  have returns: "\<exists>table. createRpcMethods ?send ?C ?S [] = (Inr table, [])" .
  have "createRpcMethods ?send ?C ?S [] =
      (Inr \<lparr>own = [(''chain'', \<lparr>own = [(''getBlock'', rpc_caller ?send ''chain'' ''getBlock''),
          (''length'', rpc_caller ?send ''chain'' ''length'')], proto = None\<rparr>)], proto = None\<rparr>, [])"
    by (simp add: eval_defs)
  with unsupported returns show ?thesis by (intro conjI)
qed

text \<open>
  Claim C7 as it was stated fails. With \<open>chain___proto__\<close> and \<open>chain_length\<close>
  supported, the first assignment makes an arrow function the prototype of \<open>endPoints\<close>
  and the second one meets the read-only \<open>length\<close> of that function: a \<open>TypeError\<close>.
\<close>

theorem builder_throws_after_proto_endpoint:
  "createRpcMethods (recording_send (method' :: string request \<Rightarrow> string))
       [(''chain'', [''__proto__'', ''length''])] [''chain___proto__'', ''chain_length''] [] =
     (Inl TypeError, [])"
  by (simp add: eval_defs)

text \<open>
  Claim C8. Running the builder leaves the world as it was, whatever the collaborator
  does when it is sent a request; so does the constructor, which runs it three times.
  With the recording collaborator: the log after the builder is the log before it, and
  calling a produced callable appends exactly one request.
\<close>

theorem construction_sends_nothing:
  "snd (createRpcMethods send rpcList supported w) = w \<and>
   snd (PolkadotPlugin_constructor send PolkadotRpcList PolkadotSupportedRpcMethods
          KusamaRpcList KusamaSupportedRpcMethods SubstrateRpcList SubstrateSupportedRpcMethods w) = w \<and>
   snd (createRpcMethods (recording_send respond) rpcList supported log) = log \<and>
   snd (rpc_caller (recording_send respond) N e actuals log) =
     log @ [\<lparr>method' = qualified_name N e, params = [first_parameter actuals]\<rparr>]"
proof -
  have "snd (PolkadotPlugin_constructor send PolkadotRpcList PolkadotSupportedRpcMethods
      KusamaRpcList KusamaSupportedRpcMethods SubstrateRpcList SubstrateSupportedRpcMethods w) = w"
    unfolding PolkadotPlugin_constructor_def
    using createRpcMethods_run [of send PolkadotRpcList PolkadotSupportedRpcMethods w]
      createRpcMethods_run [of send KusamaRpcList KusamaSupportedRpcMethods w]
      createRpcMethods_run [of send SubstrateRpcList SubstrateSupportedRpcMethods w]
    by (cases "fst (createRpcMethods send PolkadotRpcList PolkadotSupportedRpcMethods w)";
        cases "fst (createRpcMethods send KusamaRpcList KusamaSupportedRpcMethods w)";
        cases "fst (createRpcMethods send SubstrateRpcList SubstrateSupportedRpcMethods w)")
      simp_all
  moreover have "snd (createRpcMethods send rpcList supported w) = w"
    by (rule createRpcMethods_frame)
  moreover have "snd (createRpcMethods (recording_send respond) rpcList supported log) = log"
    by (rule createRpcMethods_frame)
  moreover have "snd (rpc_caller (recording_send respond) N e actuals log) =
      log @ [\<lparr>method' = qualified_name N e, params = [first_parameter actuals]\<rparr>]"
    by (simp add: rpc_caller_def recording_send_def)
  ultimately show ?thesis by (intro conjI)
qed

text \<open>
  Claim C9. Every callable of the table sends a \<open>params\<close> list of exactly one element,
  whatever the number of arguments it is called with. Called with no argument, it sends
  \<open>{ method: "N_e", params: [undefined] }\<close>.
\<close>

theorem params_has_one_element:
  assumes run: "createRpcMethods send rpcList supported w = (Inr table, w')"
    and ns: "prop_get endPoints_lookup table N = Some endPoints"
    and ep: "prop_get function_lookup endPoints e = Some f"
  shows "(\<exists>p. f actuals w0 = send \<lparr>method' = qualified_name N e, params = [p]\<rparr> w0) \<and>
         f [] w0 = send \<lparr>method' = qualified_name N e, params = [JSUndefined]\<rparr> w0"
proof -
  from table_entry [OF run ns] obtain names
    where "prop_get function_lookup endPoints e =
        (if e \<in> set names \<and> array_includes supported (qualified_name N e)
         then Some (rpc_caller send N e) else None)"
    by blast
  with ep have f: "f = rpc_caller send N e"
    by (simp split: if_splits)
  have "f actuals w0 =
      send \<lparr>method' = qualified_name N e, params = [first_parameter actuals]\<rparr> w0"
    by (simp add: f rpc_caller_def)
  moreover have "f [] w0 = send \<lparr>method' = qualified_name N e, params = [JSUndefined]\<rparr> w0"
    by (simp add: f rpc_caller_def)
  ultimately show ?thesis by blast
qed

text \<open>Calling \<open>chain.getBlock()\<close> with the recording collaborator.\<close>

theorem params_has_one_element_witness:
  "createRpcMethods (recording_send (method' :: string request \<Rightarrow> string))
       [(''chain'', [''getBlock''])] [''chain_getBlock''] [] =
     (Inr \<lparr>own = [(''chain'',
              \<lparr>own = [(''getBlock'', rpc_caller (recording_send method') ''chain'' ''getBlock'')],
               proto = None\<rparr>)],
           proto = None\<rparr>, []) \<and>
   prop_get endPoints_lookup
       \<lparr>own = [(''chain'',
          \<lparr>own = [(''getBlock'',
             rpc_caller (recording_send (method' :: string request \<Rightarrow> string)) ''chain'' ''getBlock'')],
           proto = None\<rparr>)],
        proto = None\<rparr> ''chain'' =
     Some \<lparr>own = [(''getBlock'', rpc_caller (recording_send method') ''chain'' ''getBlock'')],
           proto = None\<rparr> \<and>
   prop_get function_lookup
       \<lparr>own = [(''getBlock'',
          rpc_caller (recording_send (method' :: string request \<Rightarrow> string)) ''chain'' ''getBlock'')],
        proto = None\<rparr> ''getBlock'' =
     Some (rpc_caller (recording_send method') ''chain'' ''getBlock'') \<and>
   rpc_caller (recording_send (method' :: string request \<Rightarrow> string)) ''chain'' ''getBlock'' [] [] =
     (''chain_getBlock'', [\<lparr>method' = ''chain_getBlock'', params = [JSUndefined]\<rparr>])"
proof -
  let ?send = "recording_send (method' :: string request \<Rightarrow> string)"
  let ?f = "rpc_caller ?send ''chain'' ''getBlock''"
  let ?EP = "\<lparr>own = [(''getBlock'', ?f)], proto = None\<rparr>"
  let ?T = "\<lparr>own = [(''chain'', ?EP)], proto = None\<rparr>"
  have run: "createRpcMethods ?send [(''chain'', [''getBlock''])] [''chain_getBlock''] [] = (Inr ?T, [])"
    by (simp add: eval_defs)
  have ns: "prop_get endPoints_lookup ?T ''chain'' = Some ?EP"
    by (simp add: eval_defs)
  have ep: "prop_get function_lookup ?EP ''getBlock'' = Some ?f"
    by (simp add: eval_defs)
  from params_has_one_element [OF run ns ep, of "[]" "[]"]
  have "?f [] [] = ?send \<lparr>method' = qualified_name ''chain'' ''getBlock'', params = [JSUndefined]\<rparr> []"
    by blast
  then have "?f [] [] = (''chain_getBlock'', [\<lparr>method' = ''chain_getBlock'', params = [JSUndefined]\<rparr>])"
    by (simp add: recording_send_def qualified_name_def)
  with run ns ep show ?thesis by (intro conjI)
qed

text \<open>
  Claim C10. Two supported lists with the same elements, in whatever order and however
  often repeated, give the same outcome of the builder: the same table.
\<close>

theorem supported_only_by_membership:
  assumes "set supported = set supported'"
  shows "createRpcMethods send rpcList supported w = createRpcMethods send rpcList supported' w"
proof -
  from assms have "array_includes supported = array_includes supported'"
    by (simp add: array_includes_def fun_eq_iff)
  then show ?thesis
    unfolding createRpcMethods_def by (rule namespaces_loop_supported_cong)
qed

text \<open>A supported list, and the same elements reordered with one repeated.\<close>

theorem supported_only_by_membership_witness:
  "set [''chain_getBlock'', ''state_call''] = set [''state_call'', ''chain_getBlock'', ''state_call''] \<and>
   createRpcMethods (recording_send (method' :: string request \<Rightarrow> string))
       [(''chain'', [''getBlock'', ''getBlockHash'']), (''state'', [''call''])]
       [''chain_getBlock'', ''state_call''] [] =
   createRpcMethods (recording_send method')
       [(''chain'', [''getBlock'', ''getBlockHash'']), (''state'', [''call''])]
       [''state_call'', ''chain_getBlock'', ''state_call''] []"
proof -
  have same: "set [''chain_getBlock'', ''state_call''] = set [''state_call'', ''chain_getBlock'', ''state_call'']"
    by auto
  from same supported_only_by_membership [OF same] show ?thesis
    by (intro conjI)
qed

end
